theory Spec2Isabelle
  imports Complex_Main
begin

section \<open>Phishing detector: a state-passing model of phish_detector.py\<close>

text \<open>
  The script is one module: data loading and validation, training through scikit-learn,
  a SQLite store with two tables, the two functions \<open>analyze_email\<close> and
  \<open>save_to_db\<close>, and an interactive read-evaluate loop.

  Conventions of the model.
  \<^item> A Python \<open>str\<close> is a \<open>string\<close>; a \<open>char\<close> stands for a code point in the range
    0..255, and \<open>len\<close> is \<open>length\<close>.
  \<^item> Every exception is a value of \<open>py_exc\<close>; a statement that may raise returns
    \<open>py_exc + 'a\<close> together with the world it leaves behind.
  \<^item> The world holds what the script reads and writes: the pending lines of standard
    input, the two tables as the connection sees them, the scripted outcomes of the coming
    store statements, and the log of what the run did (printed messages and calls that
    matter to the properties).
  \<^item> scikit-learn and NumPy are parameters: the fitted vectorizer and forest are
    functions, and so are the product and the \<open>round\<close> of the \<open>numpy.float64\<close> values the
    forest returns. A float64 value is written as the rational it denotes; nothing is
    assumed about how the two operations round.
  \<^item> The columns the storage engine fills by itself (id, timestamp) are not part of a row.
  \<^item> The prompts that \<open>input\<close> prints are not logged, and a banner of several lines is
    one message.
\<close>

subsection \<open>Python string operations\<close>

definition is_space :: "char \<Rightarrow> bool" where
  \<comment> \<open>the characters \<open>str.strip()\<close> removes, among the code points below 256\<close>
  "is_space c =
     (let n = (of_char c :: nat)
      in (9 \<le> n \<and> n \<le> 13) \<or> (28 \<le> n \<and> n \<le> 32) \<or> n = 133 \<or> n = 160)"

definition strip :: "string \<Rightarrow> string" where
  "strip s = rev (dropWhile is_space (rev (dropWhile is_space s)))"

definition lower_char :: "char \<Rightarrow> char" where
  "lower_char c =
     (let n = (of_char c :: nat)
      in if (65 \<le> n \<and> n \<le> 90) \<or> (192 \<le> n \<and> n \<le> 222 \<and> n \<noteq> 215)
         then char_of (n + 32) else c)"

definition lower :: "string \<Rightarrow> string" where
  "lower s = map lower_char s"

subsection \<open>Exceptions, messages and the world\<close>

datatype py_exc =
    ValueError string
  | EOFError
  | Sqlite_Error
  | UnicodeEncodeError
  | Library_Error string

datatype msg =
    M_banner
  | M_data_loaded
  | M_warn_small_dataset
  | M_total_emails nat nat nat
  | M_error_loading py_exc
  | M_eval_header
  | M_eval_report
  | M_eval_skipped
  | M_interactive_header
  | M_summary_header
  | M_total_detections nat
  | M_false_positives nat
  | M_err_empty_input
  | M_err_too_short
  | M_result string rat
  | M_warn_skip_save
  | M_warn_db_error py_exc
  | M_feedback_saved
  | M_invalid_label
  | M_error py_exc
  | M_session_ended

datatype event =
    Out msg
  | Ev_split
  | Ev_fit
  | Ev_connect
  | Ev_close
  | Ev_analyze string

type_synonym detection_row = "string \<times> string \<times> rat"
type_synonym feedback_row = "string \<times> string"

record world =
  stdin :: "string list"
  write_faults :: "py_exc option list"
  detections :: "detection_row list"
  false_positives :: "feedback_row list"
  events :: "event list"

definition log :: "event \<Rightarrow> world \<Rightarrow> world" where
  "log e w = w\<lparr>events := events w @ [e]\<rparr>"

definition print :: "msg \<Rightarrow> world \<Rightarrow> world" where
  "print m w = log (Out m) w"

definition input_line :: "world \<Rightarrow> (py_exc + string) \<times> world" where
  \<comment> \<open>\<open>input()\<close>: the next line of standard input, EOFError when there is none\<close>
  "input_line w =
     (case stdin w of
        [] \<Rightarrow> (Inl EOFError, w)
      | l # ls \<Rightarrow> (Inr l, w\<lparr>stdin := ls\<rparr>))"

subsection \<open>The store\<close>

text \<open>
  \<open>cursor.execute\<close> of an INSERT and \<open>conn.commit()\<close> are two statements, and each may
  raise. The next entry of \<open>write_faults\<close> is the outcome of the next of these statements:
  \<open>None\<close> when it succeeds, \<open>Some e\<close> when it raises \<open>e\<close>; with no entry left it succeeds.
  The exception is a \<open>sqlite3.Error\<close> or another one: the driver raises
  UnicodeEncodeError for a text it cannot encode (a lone surrogate, which \<open>input\<close> yields
  under the surrogateescape handler and which is outside the characters of this model).
  A row whose INSERT ran is in the table the connection sees, whether or not its commit
  succeeded. A COUNT reads the table and does not fail.
\<close>

definition db_statement :: "world \<Rightarrow> py_exc option \<times> world" where
  \<comment> \<open>the outcome of the next store statement\<close>
  "db_statement w =
     (case write_faults w of
        [] \<Rightarrow> (None, w)
      | f # fs \<Rightarrow> (f, w\<lparr>write_faults := fs\<rparr>))"

definition cursor_execute :: "(world \<Rightarrow> world) \<Rightarrow> world \<Rightarrow> (py_exc + unit) \<times> world" where
  \<comment> \<open>\<open>cursor.execute("INSERT ...")\<close>, the row given as the update \<open>ins\<close> of its table\<close>
  "cursor_execute ins w =
     (case db_statement w of
        (Some e, w') \<Rightarrow> (Inl e, w')
      | (None, w') \<Rightarrow> (Inr (), ins w'))"

definition conn_commit :: "world \<Rightarrow> (py_exc + unit) \<times> world" where
  "conn_commit w =
     (case db_statement w of
        (Some e, w') \<Rightarrow> (Inl e, w')
      | (None, w') \<Rightarrow> (Inr (), w'))"

definition insert_detection :: "detection_row \<Rightarrow> world \<Rightarrow> (py_exc + unit) \<times> world" where
  "insert_detection r = cursor_execute (\<lambda>w. w\<lparr>detections := detections w @ [r]\<rparr>)"

definition insert_false_positive :: "feedback_row \<Rightarrow> world \<Rightarrow> (py_exc + unit) \<times> world" where
  "insert_false_positive r =
     cursor_execute (\<lambda>w. w\<lparr>false_positives := false_positives w @ [r]\<rparr>)"

definition count_detections :: "world \<Rightarrow> nat" where
  "count_detections w = length (detections w)"

definition count_false_positives :: "world \<Rightarrow> nat" where
  "count_false_positives w = length (false_positives w)"

fun is_sqlite_error :: "py_exc \<Rightarrow> bool" where
  "is_sqlite_error Sqlite_Error = True"
| "is_sqlite_error _ = False"

subsection \<open>The trained pair and the arithmetic of its values\<close>

type_synonym feature_vector = "rat list"

record trained_model =
  transform :: "string \<Rightarrow> feature_vector"
  predict :: "feature_vector \<Rightarrow> string"
  predict_proba :: "feature_vector \<Rightarrow> rat list"
  float_mul :: "rat \<Rightarrow> rat \<Rightarrow> rat"
  float_round :: "rat \<Rightarrow> nat \<Rightarrow> rat"

text \<open>
  \<open>float_mul\<close> is the product of two float64 values and \<open>float_round x n\<close> is
  \<open>round(x, n)\<close> on a \<open>numpy.float64\<close>: the operations of the values that \<open>predict_proba\<close>
  returns.
\<close>

definition array_max :: "rat list \<Rightarrow> py_exc + rat" where
  \<comment> \<open>\<open>ndarray.max()\<close>: raises on an empty array\<close>
  "array_max ps =
     (case ps of
        [] \<Rightarrow> Inl (ValueError ''zero-size array to reduction operation maximum which has no identity'')
      | p # qs \<Rightarrow> Inr (fold max qs p))"

subsection \<open>analyze\_email and save\_to\_db\<close>

definition analyze_email ::
  "trained_model \<Rightarrow> world \<Rightarrow> string \<Rightarrow> (py_exc + string \<times> rat) \<times> world" where
  "analyze_email m w email =
     (if strip email = [] then (Inl (ValueError ''Empty email text''), w)
      else if 1000 < length email then (Inl (ValueError ''Email too long (max 1000 chars)''), w)
      else
        let vec = transform m email;
            prediction = predict m vec
        in case array_max (predict_proba m vec) of
             Inl e \<Rightarrow> (Inl e, w)
           | Inr proba \<Rightarrow> (Inr (prediction, float_round m (float_mul m proba 100) 2), w))"

definition save_to_db ::
  "world \<Rightarrow> string \<Rightarrow> string \<Rightarrow> rat \<Rightarrow> (py_exc + unit) \<times> world" where
  "save_to_db w email prediction confidence =
     (if email = [] \<or> prediction = [] then (Inr (), print M_warn_skip_save w)
      else
        case insert_detection (email, prediction, confidence) w of
          (Inl e, w') \<Rightarrow>
            if is_sqlite_error e then (Inr (), print (M_warn_db_error e) w')
            else (Inl e, w')
        | (Inr u, w') \<Rightarrow>
            (case conn_commit w' of
               (Inl e, w'') \<Rightarrow>
                 if is_sqlite_error e then (Inr (), print (M_warn_db_error e) w'')
                 else (Inl e, w'')
             | (Inr u, w'') \<Rightarrow> (Inr (), w'')))"

subsection \<open>The interactive loop\<close>

definition labels :: "string list" where
  "labels = [''phishing'', ''legitimate'']"

definition save_feedback :: "world \<Rightarrow> string \<Rightarrow> string \<Rightarrow> (py_exc + unit) \<times> world" where
  \<comment> \<open>the INSERT into \<open>false_positives\<close>, its commit and the confirmation that follows\<close>
  "save_feedback w email actual_label =
     (case insert_false_positive (email, actual_label) w of
        (Inl e, w1) \<Rightarrow> (Inl e, w1)
      | (Inr u, w1) \<Rightarrow>
          (case conn_commit w1 of
             (Inl e, w2) \<Rightarrow> (Inl e, w2)
           | (Inr u, w2) \<Rightarrow> (Inr (), print M_feedback_saved w2)))"

definition ask_feedback :: "world \<Rightarrow> string \<Rightarrow> (py_exc + unit) \<times> world" where
  \<comment> \<open>the two prompts after a prediction\<close>
  "ask_feedback w email =
     (case input_line w of
        (Inl e, w1) \<Rightarrow> (Inl e, w1)
      | (Inr answer, w1) \<Rightarrow>
          let feedback = lower answer in
          if feedback = ''n'' then
            (case input_line w1 of
               (Inl e, w2) \<Rightarrow> (Inl e, w2)
             | (Inr answer2, w2) \<Rightarrow>
                 let actual_label = lower (strip answer2) in
                 if actual_label \<in> set labels then save_feedback w2 email actual_label
                 else (Inr (), print M_invalid_label w2))
          else (Inr (), w1))"

definition try_block :: "trained_model \<Rightarrow> world \<Rightarrow> string \<Rightarrow> (py_exc + unit) \<times> world" where
  \<comment> \<open>the body of the \<open>try\<close>; the call of \<open>analyze_email\<close> is logged where it is made\<close>
  "try_block m w email =
     (case analyze_email m (log (Ev_analyze email) w) email of
        (Inl e, w1) \<Rightarrow> (Inl e, w1)
      | (Inr (prediction, confidence), w1) \<Rightarrow>
          (case save_to_db (print (M_result prediction confidence) w1) email prediction confidence of
             (Inl e, w2) \<Rightarrow> (Inl e, w2)
           | (Inr u, w2) \<Rightarrow> ask_feedback w2 email))"

datatype control = Continue | Break | Raise py_exc

definition report :: "world \<Rightarrow> world" where
  "report w =
     (let w1 = print M_summary_header w;
          w2 = print (M_total_detections (count_detections w1)) w1
      in print (M_false_positives (count_false_positives w2)) w2)"

definition iteration :: "trained_model \<Rightarrow> world \<Rightarrow> control \<times> world" where
  \<comment> \<open>one pass through the body of \<open>while True\<close>\<close>
  "iteration m w =
     (case input_line w of
        (Inl e, w1) \<Rightarrow> (Raise e, w1)
      | (Inr l, w1) \<Rightarrow>
          let email = strip l in
          if lower email = ''quit'' then (Break, w1)
          else if lower email = ''report'' then (Continue, report w1)
          else if email = [] then (Continue, print M_err_empty_input w1)
          else if length email < 10 then (Continue, print M_err_too_short w1)
          else
            (case try_block m w1 email of
               (Inl e, w2) \<Rightarrow> (Continue, print (M_error e) w2)
             | (Inr u, w2) \<Rightarrow> (Continue, w2)))"

subsection \<open>Every iteration that continues has read a line\<close>

lemma stdin_log: "stdin (log e w) = stdin w"
  by (simp add: log_def)

lemma stdin_print: "stdin (print e w) = stdin w"
  by (simp add: print_def log_def)

lemma stdin_report: "stdin (report w) = stdin w"
  by (simp add: report_def Let_def stdin_print)

lemma input_line_stdin:
  "input_line w = (r, w') \<Longrightarrow> length (stdin w') \<le> length (stdin w)"
  by (auto simp: input_line_def split: list.splits)

lemma input_line_consumes:
  "input_line w = (Inr l, w') \<Longrightarrow> length (stdin w') < length (stdin w)"
  by (auto simp: input_line_def split: list.splits)

lemma db_statement_stdin: "db_statement w = (x, w') \<Longrightarrow> stdin w' = stdin w"
  by (auto simp: db_statement_def split: list.splits)

lemma cursor_execute_stdin:
  assumes "\<And>v. stdin (ins v) = stdin v" and "cursor_execute ins w = (r, w')"
  shows "stdin w' = stdin w"
  using assms
  by (auto simp: cursor_execute_def split: prod.splits option.splits dest: db_statement_stdin)

lemma conn_commit_stdin: "conn_commit w = (r, w') \<Longrightarrow> stdin w' = stdin w"
  by (auto simp: conn_commit_def split: prod.splits option.splits dest: db_statement_stdin)

lemma insert_detection_stdin: "insert_detection r w = (x, w') \<Longrightarrow> stdin w' = stdin w"
  unfolding insert_detection_def by (erule cursor_execute_stdin [rotated]) simp

lemma insert_false_positive_stdin:
  "insert_false_positive r w = (x, w') \<Longrightarrow> stdin w' = stdin w"
  unfolding insert_false_positive_def by (erule cursor_execute_stdin [rotated]) simp

lemma analyze_email_world: "snd (analyze_email m w email) = w"
  by (simp add: analyze_email_def Let_def split: sum.splits)

lemma save_to_db_stdin: "save_to_db w email p c = (x, w') \<Longrightarrow> stdin w' = stdin w"
  by (auto simp: save_to_db_def stdin_print split: if_splits prod.splits sum.splits
      dest!: insert_detection_stdin conn_commit_stdin)

lemma save_feedback_stdin: "save_feedback w email l = (x, w') \<Longrightarrow> stdin w' = stdin w"
  by (auto simp: save_feedback_def stdin_print split: prod.splits sum.splits
      dest!: insert_false_positive_stdin conn_commit_stdin)

lemma ask_feedback_stdin:
  assumes run: "ask_feedback w email = (x, w')"
  shows "length (stdin w') \<le> length (stdin w)"
proof (cases "input_line w")
  case (Pair r1 w1)
  note le1 = input_line_stdin [OF Pair]
  show ?thesis
  proof (cases r1)
    case (Inl e)
    with Pair run le1 show ?thesis by (simp add: ask_feedback_def)
  next
    case (Inr answer)
    show ?thesis
    proof (cases "lower answer = ''n''")
      case False
      with Pair Inr run le1 show ?thesis by (simp add: ask_feedback_def Let_def)
    next
      case True
      obtain r2 w2 where i2: "input_line w1 = (r2, w2)" by (cases "input_line w1")
      note le2 = input_line_stdin [OF i2]
      show ?thesis
      proof (cases r2)
        case (Inl e)
        with Pair Inr True i2 run le1 le2 show ?thesis
          by (simp add: ask_feedback_def Let_def)
      next
        case (Inr answer2)
        show ?thesis
        proof (cases "lower (strip answer2) \<in> set labels")
          case False
          with Pair \<open>r1 = Inr answer\<close> True i2 Inr run
          have "w' = print M_invalid_label w2"
            by (simp add: ask_feedback_def Let_def)
          with le1 le2 show ?thesis by (simp add: stdin_print)
        next
          case lab: True
          with Pair \<open>r1 = Inr answer\<close> True i2 Inr run
          have "save_feedback w2 email (lower (strip answer2)) = (x, w')"
            by (simp add: ask_feedback_def Let_def)
          then have "stdin w' = stdin w2" by (rule save_feedback_stdin)
          with le1 le2 show ?thesis by simp
        qed
      qed
    qed
  qed
qed

lemma try_block_stdin:
  assumes "try_block m w email = (x, w')"
  shows "length (stdin w') \<le> length (stdin w)"
proof (cases "analyze_email m (log (Ev_analyze email) w) email")
  case (Pair r w1)
  then have w1: "w1 = log (Ev_analyze email) w"
    using analyze_email_world [of m "log (Ev_analyze email) w" email] by simp
  show ?thesis
  proof (cases r)
    case (Inl e)
    with Pair assms have "w' = w1" by (simp add: try_block_def)
    with w1 show ?thesis by (simp add: stdin_log)
  next
    case (Inr pc)
    obtain p c where pc: "pc = (p, c)" by (cases pc)
    obtain y w2 where s: "save_to_db (print (M_result p c) w1) email p c = (y, w2)"
      by (cases "save_to_db (print (M_result p c) w1) email p c")
    from s have w2: "stdin w2 = stdin w"
      by (simp add: save_to_db_stdin [OF s] stdin_print stdin_log w1)
    show ?thesis
    proof (cases y)
      case (Inl e)
      with Pair Inr pc s assms w2 show ?thesis by (simp add: try_block_def)
    next
      case (Inr u)
      with Pair \<open>r = Inr pc\<close> pc s assms have "ask_feedback w2 email = (x, w')"
        by (simp add: try_block_def)
      from ask_feedback_stdin [OF this] w2 show ?thesis by simp
    qed
  qed
qed

lemma iteration_Continue_consumes:
  assumes "iteration m w = (Continue, w')"
  shows "length (stdin w') < length (stdin w)"
proof (cases "input_line w")
  case (Pair r w1)
  show ?thesis
  proof (cases r)
    case (Inl e)
    with Pair assms show ?thesis by (simp add: iteration_def)
  next
    case (Inr l)
    with Pair have lt: "length (stdin w1) < length (stdin w)"
      by (simp add: input_line_consumes)
    from Pair Inr assms have "length (stdin w') \<le> length (stdin w1)"
      by (auto simp: iteration_def Let_def stdin_print stdin_report
          split: if_splits prod.splits sum.splits dest: try_block_stdin)
    with lt show ?thesis by simp
  qed
qed

subsection \<open>The loop and the script\<close>

function loop :: "trained_model \<Rightarrow> world \<Rightarrow> py_exc option \<times> world" where
  "loop m w =
     (case iteration m w of
        (Continue, w') \<Rightarrow> loop m w'
      | (Break, w') \<Rightarrow> (None, w')
      | (Raise e, w') \<Rightarrow> (Some e, w'))"
  by pat_completeness auto
termination
  by (relation "measure (\<lambda>(m, w). length (stdin w))")
    (auto dest: iteration_Continue_consumes [OF sym])

declare loop.simps [simp del]

subsection \<open>Data loading and the script from top to bottom\<close>

datatype cell = Str string | Num rat | NaN

type_synonym dataframe = "(string \<times> cell list) list"

definition columns :: "dataframe \<Rightarrow> string list" where
  "columns data = map fst data"

definition column :: "dataframe \<Rightarrow> string \<Rightarrow> py_exc + cell list" where
  \<comment> \<open>\<open>data[name]\<close>\<close>
  "column data name =
     (case map_of data name of
        None \<Rightarrow> Inl (Library_Error ''KeyError'')
      | Some vs \<Rightarrow> Inr vs)"

definition nrows :: "dataframe \<Rightarrow> nat" where
  \<comment> \<open>\<open>len(data)\<close>\<close>
  "nrows data = (case data of [] \<Rightarrow> 0 | (name, vs) # rest \<Rightarrow> length vs)"

definition unique :: "cell list \<Rightarrow> cell list" where
  "unique vs = rev (remdups (rev vs))"

definition validate :: "dataframe \<Rightarrow> py_exc + cell list" where
  \<comment> \<open>the two checks that raise ValueError (messages without their quotation marks);
      returns the label column\<close>
  "validate data =
     (if \<not> list_all (\<lambda>col. col \<in> set (columns data)) [''text'', ''label'']
      then Inl (ValueError ''CSV must contain text and label columns'')
      else
        case column data ''label'' of
          Inl e \<Rightarrow> Inl e
        | Inr ls \<Rightarrow>
            if \<not> list_all (\<lambda>label. label \<in> set (map Str labels)) (unique ls)
            then Inl (ValueError ''Labels must be phishing or legitimate'')
            else Inr ls)"

definition load_data :: "py_exc + dataframe \<Rightarrow> world \<Rightarrow> dataframe option \<times> world" where
  \<comment> \<open>the first \<open>try\<close>: any exception is printed and the process exits (None)\<close>
  "load_data csv w =
     (case csv of
        Inl e \<Rightarrow> (None, print (M_error_loading e) w)
      | Inr data \<Rightarrow>
          let w1 = print M_data_loaded w in
          (case validate data of
             Inl e \<Rightarrow> (None, print (M_error_loading e) w1)
           | Inr ls \<Rightarrow>
               let w2 = (if nrows data < 10 then print M_warn_small_dataset w1 else w1);
                   total = M_total_emails (nrows data)
                     (length (filter (\<lambda>c. c = Str ''phishing'') ls))
                     (length (filter (\<lambda>c. c = Str ''legitimate'') ls))
               in (Some data, print total w2)))"

record sklearn =
  train_test_split ::
    "cell list \<Rightarrow> cell list \<Rightarrow> py_exc + (cell list \<times> cell list \<times> cell list \<times> cell list)"
  fit :: "cell list \<Rightarrow> cell list \<Rightarrow> py_exc + trained_model"

datatype outcome = Exited | Finished | Crashed py_exc

definition interactive :: "trained_model \<Rightarrow> world \<Rightarrow> outcome \<times> world" where
  \<comment> \<open>the interactive interface and the cleanup: \<open>conn.close()\<close> follows the loop\<close>
  "interactive m w =
     (case loop m (print M_interactive_header w) of
        (Some e, w') \<Rightarrow> (Crashed e, w')
      | (None, w') \<Rightarrow> (Finished, print M_session_ended (log Ev_close w')))"

definition main :: "sklearn \<Rightarrow> py_exc + dataframe \<Rightarrow> world \<Rightarrow> outcome \<times> world" where
  "main sk csv w0 =
     (case load_data csv (print M_banner w0) of
        (None, w1) \<Rightarrow> (Exited, w1)
      | (Some data, w1) \<Rightarrow>
          (case column data ''text'' of
             Inl e \<Rightarrow> (Crashed e, w1)
           | Inr X \<Rightarrow>
          (case column data ''label'' of
             Inl e \<Rightarrow> (Crashed e, w1)
           | Inr y \<Rightarrow>
          (case train_test_split sk X y of
             Inl e \<Rightarrow> (Crashed e, log Ev_split w1)
           | Inr (X_train, X_test, y_train, y_test) \<Rightarrow>
          (case fit sk X_train y_train of
             Inl e \<Rightarrow> (Crashed e, log Ev_fit (log Ev_split w1))
           | Inr m \<Rightarrow>
               let w2 = log Ev_connect (log Ev_fit (log Ev_split w1));
                   w3 = print M_eval_header w2;
                   w4 = (if 0 < length X_test then print M_eval_report w3
                         else print M_eval_skipped w3)
               in interactive m w4)))))"

subsection \<open>Concrete instances\<close>

definition round_half_even :: "rat \<Rightarrow> int" where
  \<comment> \<open>the nearest integer, a tie going to the even one\<close>
  "round_half_even x =
     (let f = \<lfloor>x\<rfloor>; d = x - of_int f
      in if d < 1 / 2 then f
         else if 1 / 2 < d then f + 1
         else if even f then f else f + 1)"

definition model0 :: trained_model where
  \<comment> \<open>a forest that votes 3 to 1 for \<open>phishing\<close>, with exact arithmetic: on the values it
      meets here (0.75 and 75.0) the float64 product and \<open>round\<close> are exact as well\<close>
  "model0 =
     \<lparr>transform = (\<lambda>s. [of_nat (length s)]),
      predict = (\<lambda>v. ''phishing''),
      predict_proba = (\<lambda>v. [1 / 4, 3 / 4]),
      float_mul = (\<lambda>x y. x * y),
      float_round = (\<lambda>x n. of_int (round_half_even (x * 10 ^ n)) / 10 ^ n)\<rparr>"

definition sk0 :: sklearn where
  \<comment> \<open>a split that keeps the last fifth for testing, and a fit that returns \<open>model0\<close>\<close>
  "sk0 =
     \<lparr>train_test_split =
        (\<lambda>X y. let n = length X - length X div 5
                in Inr (take n X, drop n X, take n y, drop n y)),
      fit = (\<lambda>X y. Inr model0)\<rparr>"


definition world0 :: world where
  "world0 =
     \<lparr>stdin = [], write_faults = [], detections = [], false_positives = [], events = []\<rparr>"

definition long_text :: string where
  "long_text = replicate 1001 (CHR ''a'')"

subsection \<open>The names the specification gives to the two ValueErrors\<close>

definition EmptyInputError :: py_exc where
  "EmptyInputError = ValueError ''Empty email text''"

definition TooLongError :: py_exc where
  "TooLongError = ValueError ''Email too long (max 1000 chars)''"

subsection \<open>Notions the properties are stated with\<close>

definition outcome_at :: "nat \<Rightarrow> world \<Rightarrow> py_exc option" where
  \<comment> \<open>the outcome of the store statement that comes \<open>n\<close> statements from now\<close>
  "outcome_at n w = (if n < length (write_faults w) then write_faults w ! n else None)"

definition write_succeeds :: "world \<Rightarrow> bool" where
  \<comment> \<open>the coming INSERT and its commit both succeed\<close>
  "write_succeeds w = (outcome_at 0 w = None \<and> outcome_at 1 w = None)"

definition float64_contract :: "trained_model \<Rightarrow> bool" where
  \<comment> \<open>what is used of float64 arithmetic: between 0 and 1 the product with 100 is
      monotone, between 0 and 100 \<open>round(x, 2)\<close> is monotone, and both are exact at the ends\<close>
  "float64_contract m =
     ((\<forall>x y. 0 \<le> x \<and> x \<le> y \<and> y \<le> 1 \<longrightarrow> float_mul m x 100 \<le> float_mul m y 100) \<and>
      float_mul m 0 100 = 0 \<and> float_mul m 1 100 = 100 \<and>
      (\<forall>x y. 0 \<le> x \<and> x \<le> y \<and> y \<le> 100 \<longrightarrow>
         float_round m x 2 \<le> float_round m y 2) \<and>
      float_round m 0 2 = 0 \<and> float_round m 100 2 = 100)"

definition analyze_calls :: "world \<Rightarrow> string list" where
  \<comment> \<open>the texts \<open>analyze_email\<close> was called on, oldest first\<close>
  "analyze_calls w = concat (map (\<lambda>e. case e of Ev_analyze t \<Rightarrow> [t] | _ \<Rightarrow> []) (events w))"

definition negative_with_label :: "world \<Rightarrow> string \<Rightarrow> bool" where
  \<comment> \<open>the next answer is \<open>n\<close> and the one after it, stripped and lowered, is the label\<close>
  "negative_with_label w l =
     (case stdin w of
        a # b # ls \<Rightarrow> lower a = ''n'' \<and> lower (strip b) = l
      | _ \<Rightarrow> False)"

definition well_formed_row :: "detection_row \<Rightarrow> bool" where
  "well_formed_row r =
     (case r of (t, p, c) \<Rightarrow>
        strip t = t \<and> 10 \<le> length t \<and> length t \<le> 1000 \<and> p \<in> set labels)"




definition invalid_dataset :: "dataframe \<Rightarrow> bool" where
  \<comment> \<open>a required column is missing, or the label column holds another value\<close>
  "invalid_dataset data =
     (''text'' \<notin> set (columns data) \<or> ''label'' \<notin> set (columns data) \<or>
      (case column data ''label'' of
         Inl e \<Rightarrow> False
       | Inr ls \<Rightarrow> list_ex (\<lambda>v. v \<notin> set (map Str labels)) ls))"

section \<open>Properties\<close>

subsection \<open>Frame lemmas\<close>

lemma log_fields:
  "stdin (log e w) = stdin w"
  "write_faults (log e w) = write_faults w"
  "detections (log e w) = detections w"
  "false_positives (log e w) = false_positives w"
  "events (log e w) = events w @ [e]"
  by (simp_all add: log_def)

lemma print_fields:
  "stdin (print x w) = stdin w"
  "write_faults (print x w) = write_faults w"
  "detections (print x w) = detections w"
  "false_positives (print x w) = false_positives w"
  "events (print x w) = events w @ [Out x]"
  by (simp_all add: print_def log_fields)

lemma analyze_email_cases:
  "analyze_email m w t =
     (if strip t = [] then (Inl EmptyInputError, w)
      else if 1000 < length t then (Inl TooLongError, w)
      else case predict_proba m (transform m t) of
             [] \<Rightarrow> (Inl (ValueError ''zero-size array to reduction operation maximum which has no identity''), w)
           | p # qs \<Rightarrow>
               (Inr (predict m (transform m t), float_round m (float_mul m (fold max qs p) 100) 2),
                w))"
  by (simp add: analyze_email_def array_max_def EmptyInputError_def TooLongError_def Let_def
      split: list.splits)

lemma try_block_analyze_error:
  assumes "analyze_email m (log (Ev_analyze t) w) t = (Inl e, w1)"
  shows "try_block m w t = (Inl e, log (Ev_analyze t) w)"
proof -
  from assms have "w1 = log (Ev_analyze t) w"
    using analyze_email_world [of m "log (Ev_analyze t) w" t] by simp
  with assms show ?thesis by (simp add: try_block_def)
qed

text \<open>
  C2. \<open>analyze_email\<close> checks its argument in order: a text that is empty after
  \<open>strip\<close> raises the ValueError the specification calls EmptyInputError; otherwise a
  text of more than 1000 characters raises the one it calls TooLongError (nothing is
  truncated). So the empty text raises the first and a 1001-character text (with a
  character that is not white space) the second. The call leaves the world as it was, and
  inside the loop's \<open>try\<close> either error leaves both tables as they were.
\<close>

theorem analyze_email_preconditions:
  "(strip t = [] \<longrightarrow> analyze_email m w t = (Inl EmptyInputError, w)) \<and>
   (strip t \<noteq> [] \<and> 1000 < length t \<longrightarrow> analyze_email m w t = (Inl TooLongError, w)) \<and>
   analyze_email m w [] = (Inl EmptyInputError, w) \<and>
   (strip t \<noteq> [] \<and> length t = 1001 \<longrightarrow> analyze_email m w t = (Inl TooLongError, w)) \<and>
   (strip t = [] \<or> 1000 < length t \<longrightarrow>
      (\<exists>e. fst (try_block m w t) = Inl e \<and> e \<in> {EmptyInputError, TooLongError}) \<and>
      detections (snd (try_block m w t)) = detections w \<and>
      false_positives (snd (try_block m w t)) = false_positives w)"
proof -
  have empty: "analyze_email m w [] = (Inl EmptyInputError, w)"
    by (simp add: analyze_email_cases strip_def)
  have tb: "\<exists>e. fst (try_block m w t) = Inl e \<and> e \<in> {EmptyInputError, TooLongError}"
      "detections (snd (try_block m w t)) = detections w"
      "false_positives (snd (try_block m w t)) = false_positives w"
    if bad: "strip t = [] \<or> 1000 < length t"
  proof -
    let ?w = "log (Ev_analyze t) w"
    have "\<exists>e. analyze_email m ?w t = (Inl e, ?w) \<and> e \<in> {EmptyInputError, TooLongError}"
    proof (cases "strip t = []")
      case True
      then show ?thesis by (simp add: analyze_email_cases)
    next
      case False
      with bad show ?thesis by (simp add: analyze_email_cases)
    qed
    then obtain e where e: "analyze_email m ?w t = (Inl e, ?w)"
      and e': "e \<in> {EmptyInputError, TooLongError}"
      by blast
    from try_block_analyze_error [OF e] have tb: "try_block m w t = (Inl e, ?w)" .
    from tb e' show "\<exists>e. fst (try_block m w t) = Inl e \<and> e \<in> {EmptyInputError, TooLongError}"
      by simp
    from tb show "detections (snd (try_block m w t)) = detections w"
      by (simp add: log_fields)
    from tb show "false_positives (snd (try_block m w t)) = false_positives w"
      by (simp add: log_fields)
  qed
  show ?thesis
    using empty tb by (simp add: analyze_email_cases)
qed

theorem analyze_email_preconditions_witness:
  "analyze_email model0 world0 [] = (Inl EmptyInputError, world0) \<and>
   length long_text = 1001 \<and>
   analyze_email model0 world0 long_text = (Inl TooLongError, world0) \<and>
   detections (snd (try_block model0 world0 long_text)) = detections world0 \<and>
   false_positives (snd (try_block model0 world0 long_text)) = false_positives world0"
proof -
  have h: "strip long_text \<noteq> []" "length long_text = 1001"
    by (code_simp, simp add: long_text_def)
  then have "1000 < length long_text" by simp
  with h analyze_email_preconditions [of long_text model0 world0] show ?thesis
    by blast
qed

subsection \<open>The confidence\<close>

lemma round_half_even_floor:
  "round_half_even x = \<lfloor>x\<rfloor> \<or> round_half_even x = \<lfloor>x\<rfloor> + 1"
  by (simp add: round_half_even_def Let_def)

lemma round_half_even_mono:
  assumes "x \<le> y"
  shows "round_half_even x \<le> round_half_even y"
proof (cases "\<lfloor>x\<rfloor> = \<lfloor>y\<rfloor>")
  case True
  with assms have "x - of_int \<lfloor>x\<rfloor> \<le> y - of_int \<lfloor>y\<rfloor>" by simp
  with True show ?thesis
    by (auto simp: round_half_even_def Let_def)
next
  case False
  from assms have "\<lfloor>x\<rfloor> \<le> \<lfloor>y\<rfloor>" by (rule floor_mono)
  with False have "\<lfloor>x\<rfloor> + 1 \<le> \<lfloor>y\<rfloor>" by simp
  with round_half_even_floor [of x] round_half_even_floor [of y] show ?thesis by auto
qed

lemma round_half_even_of_int: "round_half_even (of_int k) = k"
  by (simp add: round_half_even_def)

lemma float64_contract_model0: "float64_contract model0"
proof -
  have mono: "of_int (round_half_even (x * 10\<^sup>2)) / (10\<^sup>2 :: rat)
      \<le> of_int (round_half_even (y * 10\<^sup>2)) / 10\<^sup>2" if "x \<le> y" for x y :: rat
  proof -
    from that have "x * 10\<^sup>2 \<le> y * 10\<^sup>2" by simp
    then have "round_half_even (x * 10\<^sup>2) \<le> round_half_even (y * 10\<^sup>2)"
      by (rule round_half_even_mono)
    then have "(of_int (round_half_even (x * 10\<^sup>2)) :: rat) \<le> of_int (round_half_even (y * 10\<^sup>2))"
      by (simp only: of_int_le_iff)
    then show ?thesis by (simp add: divide_right_mono)
  qed
  have zero: "round_half_even 0 = 0" using round_half_even_of_int [of 0] by simp
  have top: "round_half_even 10000 = 10000" using round_half_even_of_int [of 10000] by simp
  show ?thesis
    using mono by (simp add: float64_contract_def model0_def zero top)
qed

text \<open>
  C3. For a text that passes the two checks, \<open>analyze_email\<close> returns the predicted label
  with the confidence \<open>round(proba * 100, 2)\<close>, where \<open>proba\<close> is the largest of the class
  probabilities of the forest, and the product and the rounding are those of float64.
  When the probabilities lie between 0 and 1 the confidence lies between 0 and 100: this
  uses of the two float64 operations only that they are monotone there and exact at
  0 * 100, at 1 * 100, at \<open>round(0, 2)\<close> and at \<open>round(100, 2)\<close>.
\<close>

theorem analyze_email_confidence:
  assumes "strip t \<noteq> []" and "length t \<le> 1000"
    and "predict_proba m (transform m t) = ps" and "ps \<noteq> []"
    and "\<forall>p\<in>set ps. 0 \<le> p \<and> p \<le> 1"
    and "float64_contract m"
  shows "\<exists>conf. analyze_email m w t = (Inr (predict m (transform m t), conf), w) \<and>
           conf = float_round m (float_mul m (Max (set ps)) 100) 2 \<and>
           0 \<le> conf \<and> conf \<le> 100"
proof -
  from \<open>ps \<noteq> []\<close> obtain p qs where ps: "ps = p # qs" by (cases ps) auto
  have mx: "fold max qs p = Max (set ps)"
    unfolding ps by (rule Max.set_eq_fold [symmetric])
  from \<open>ps \<noteq> []\<close> have "Max (set ps) \<in> set ps" by (intro Max_in) simp_all
  with assms(5) have lo: "0 \<le> Max (set ps)" and hi: "Max (set ps) \<le> 1" by blast+
  let ?x = "float_mul m (Max (set ps)) 100"
  from assms(6)
  have mul: "\<And>x y. 0 \<le> x \<Longrightarrow> x \<le> y \<Longrightarrow> y \<le> 1 \<Longrightarrow> float_mul m x 100 \<le> float_mul m y 100"
    and mul0: "float_mul m 0 100 = 0" and mul1: "float_mul m 1 100 = 100"
    and rnd: "\<And>x y. 0 \<le> x \<Longrightarrow> x \<le> y \<Longrightarrow> y \<le> 100 \<Longrightarrow>
      float_round m x 2 \<le> float_round m y 2"
    and rnd0: "float_round m 0 2 = 0" and rnd1: "float_round m 100 2 = 100"
    by (simp_all add: float64_contract_def)
  from mul [of 0 "Max (set ps)"] mul [of "Max (set ps)" 1] lo hi
  have x: "0 \<le> ?x" "?x \<le> 100"
    by (simp_all add: mul0 mul1)
  from rnd [of 0 ?x] rnd [of ?x 100] x
  have r: "0 \<le> float_round m ?x 2" "float_round m ?x 2 \<le> 100"
    by (simp_all add: rnd0 rnd1)
  have a: "analyze_email m w t = (Inr (predict m (transform m t), float_round m ?x 2), w)"
    using assms(1,2,3) mx by (simp add: analyze_email_cases ps)
  from a r show ?thesis by simp
qed

theorem analyze_email_confidence_witness:
  "analyze_email model0 world0 ''verify your account now'' =
     (Inr (''phishing'', 75), world0)"
proof -
  have h: "strip ''verify your account now'' \<noteq> []"
    "length ''verify your account now'' \<le> 1000"
    "predict_proba model0 (transform model0 ''verify your account now'') = [1 / 4, 3 / 4]"
    "[1 / 4, 3 / 4 :: rat] \<noteq> []"
    "\<forall>p\<in>set [1 / 4, 3 / 4 :: rat]. 0 \<le> p \<and> p \<le> 1"
    by (code_simp, simp, simp add: model0_def, simp, simp)
  have p: "predict model0 (transform model0 ''verify your account now'') = ''phishing''"
    by (simp add: model0_def)
  have r: "float_round model0 (float_mul model0 (Max (set [1 / 4, 3 / 4])) 100) 2 = 75"
    by code_simp
  from analyze_email_confidence [OF h float64_contract_model0, of world0] show ?thesis
    unfolding p r by blast
qed

text \<open>
  C9. \<open>analyze_email\<close> has no effect: it returns the world it was given. Its result
  depends on the text and the trained pair only: called in two different worlds (other
  table contents, other pending input, another history) it returns the same label and
  the same confidence, or raises the same exception.
\<close>

theorem analyze_email_pure:
  "snd (analyze_email m w t) = w \<and>
   fst (analyze_email m w1 t) = fst (analyze_email m w2 t)"
  by (simp add: analyze_email_def Let_def split: sum.splits)

theorem analyze_email_pure_witness:
  "snd (analyze_email model0 world0 ''verify your account now'') = world0 \<and>
   fst (analyze_email model0 world0 ''verify your account now'') =
   fst (analyze_email model0
         (world0\<lparr>stdin := [''quit''], detections := [(''an older message'', ''legitimate'', 80)]\<rparr>)
         ''verify your account now'')"
  by (rule analyze_email_pure)

subsection \<open>Writes to the store\<close>

lemma outcome_at_stdin: "outcome_at n (w\<lparr>stdin := ls\<rparr>) = outcome_at n w"
  by (simp add: outcome_at_def)

lemma write_succeeds_stdin: "write_succeeds (w\<lparr>stdin := ls\<rparr>) = write_succeeds w"
  by (simp add: write_succeeds_def outcome_at_stdin)

lemma write_succeeds_print: "write_succeeds (print x w) = write_succeeds w"
  by (simp add: write_succeeds_def outcome_at_def print_fields)

lemma write_succeeds_log: "write_succeeds (log e w) = write_succeeds w"
  by (simp add: write_succeeds_def outcome_at_def log_fields)

lemma write_faults_cases:
  obtains (nil) "write_faults w = []" | (one) a where "write_faults w = [a]"
    | (more) a b rest where "write_faults w = a # b # rest"
proof (cases "write_faults w")
  case Nil
  then show ?thesis by (rule nil)
next
  case (Cons a xs)
  then show ?thesis by (cases xs) (auto intro: one more)
qed

lemma save_to_db_skip:
  "t = [] \<or> p = [] \<Longrightarrow> save_to_db w t p c = (Inr (), print M_warn_skip_save w)"
  by (simp add: save_to_db_def)

lemmas store_defs =
  insert_detection_def insert_false_positive_def cursor_execute_def conn_commit_def
  db_statement_def

lemma save_to_db_summary:
  assumes "save_to_db w t p c = (r, w')"
  shows "stdin w' = stdin w \<and> false_positives w' = false_positives w \<and>
      (detections w' = detections w \<or> detections w' = detections w @ [(t, p, c)]) \<and>
      (events w' = events w \<or> (\<exists>x. events w' = events w @ [Out x])) \<and>
      (\<forall>e. r = Inl e \<longrightarrow> \<not> is_sqlite_error e)"
proof (cases "t = [] \<or> p = []")
  case True
  from save_to_db_skip [OF True, of w c] assms show ?thesis
    by (auto simp: print_fields)
next
  case False
  then have tp: "t \<noteq> []" "p \<noteq> []" by simp_all
  show ?thesis
  proof (cases w rule: write_faults_cases)
    case nil
    with assms tp show ?thesis
      by (simp add: save_to_db_def store_defs) auto
  next
    case (one a)
    show ?thesis
    proof (cases a)
      case None
      with one assms tp show ?thesis
        by (simp add: save_to_db_def store_defs) auto
    next
      case (Some e)
      with one assms tp show ?thesis
        by (cases "is_sqlite_error e") (auto simp: save_to_db_def store_defs print_fields)
    qed
  next
    case (more a b rest)
    show ?thesis
    proof (cases a)
      case (Some e)
      with more assms tp show ?thesis
        by (cases "is_sqlite_error e") (auto simp: save_to_db_def store_defs print_fields)
    next
      case None
      show ?thesis
      proof (cases b)
        case bn: None
        with None more assms tp show ?thesis
          by (simp add: save_to_db_def store_defs) auto
      next
        case (Some e)
        with None more assms tp show ?thesis
          by (cases "is_sqlite_error e") (auto simp: save_to_db_def store_defs print_fields)
      qed
    qed
  qed
qed







subsection \<open>One iteration of the loop\<close>

lemma analyze_calls_print: "analyze_calls (print x w) = analyze_calls w"
  by (simp add: analyze_calls_def print_fields)

lemma analyze_calls_stdin: "analyze_calls (w\<lparr>stdin := ls\<rparr>) = analyze_calls w"
  by (simp add: analyze_calls_def)

lemma report_fields:
  "stdin (report w) = stdin w"
  "write_faults (report w) = write_faults w"
  "detections (report w) = detections w"
  "false_positives (report w) = false_positives w"
  "events (report w) =
     events w @ [Out M_summary_header, Out (M_total_detections (count_detections w)),
                 Out (M_false_positives (count_false_positives w))]"
  "analyze_calls (report w) = analyze_calls w"
  by (simp_all add: report_def Let_def print_fields count_detections_def
      count_false_positives_def analyze_calls_print)

lemma iteration_line:
  assumes "stdin w = l # ls"
  shows "iteration m w =
     (if lower (strip l) = ''quit'' then (Break, w\<lparr>stdin := ls\<rparr>)
      else if lower (strip l) = ''report'' then (Continue, report (w\<lparr>stdin := ls\<rparr>))
      else if strip l = [] then (Continue, print M_err_empty_input (w\<lparr>stdin := ls\<rparr>))
      else if length (strip l) < 10 then (Continue, print M_err_too_short (w\<lparr>stdin := ls\<rparr>))
      else (case try_block m (w\<lparr>stdin := ls\<rparr>) (strip l) of
              (Inl e, w2) \<Rightarrow> (Continue, print (M_error e) w2)
            | (Inr u, w2) \<Rightarrow> (Continue, w2)))"
  using assms by (simp add: iteration_def input_line_def Let_def)

text \<open>
  C5. A line whose stripped length is below 10 never reaches \<open>analyze_email\<close>. The
  iteration that reads it either leaves the loop (the line is \<open>quit\<close> in any case of
  letters), prints the report and continues (\<open>report\<close>), or prints a validation error
  (empty input, or too short) and continues. In each case no call of \<open>analyze_email\<close> is
  made and no row is written.
\<close>

theorem short_line_not_analyzed:
  assumes "stdin w = l # ls" and "length (strip l) < 10"
  shows "iteration m w =
     (if lower (strip l) = ''quit'' then (Break, w\<lparr>stdin := ls\<rparr>)
      else if lower (strip l) = ''report'' then (Continue, report (w\<lparr>stdin := ls\<rparr>))
      else if strip l = [] then (Continue, print M_err_empty_input (w\<lparr>stdin := ls\<rparr>))
      else (Continue, print M_err_too_short (w\<lparr>stdin := ls\<rparr>))) \<and>
     analyze_calls (snd (iteration m w)) = analyze_calls w \<and>
     detections (snd (iteration m w)) = detections w \<and>
     false_positives (snd (iteration m w)) = false_positives w"
  using assms
  by (simp add: iteration_line report_fields print_fields analyze_calls_print
      analyze_calls_stdin)

theorem short_line_not_analyzed_witness:
  "iteration model0 (world0\<lparr>stdin := [''  hi there  '', ''quit'']\<rparr>) =
     (Continue, world0\<lparr>stdin := [''quit''], events := [Out M_err_too_short]\<rparr>) \<and>
   analyze_calls (snd (iteration model0 (world0\<lparr>stdin := [''  hi there  '', ''quit'']\<rparr>))) = []"
proof -
  let ?w = "world0\<lparr>stdin := [''  hi there  '', ''quit'']\<rparr>"
  have h: "stdin ?w = ''  hi there  '' # [''quit'']" "length (strip ''  hi there  '') < 10"
    by (simp, code_simp)
  have a: "lower (strip ''  hi there  '') \<noteq> ''quit''"
    "lower (strip ''  hi there  '') \<noteq> ''report''" "strip ''  hi there  '' \<noteq> []"
    by code_simp+
  have b: "print M_err_too_short (?w\<lparr>stdin := [''quit'']\<rparr>) =
      world0\<lparr>stdin := [''quit''], events := [Out M_err_too_short]\<rparr>"
    by code_simp
  have c: "analyze_calls ?w = []" by code_simp
  note t = short_line_not_analyzed [OF h, of model0]
  from t have 1: "iteration model0 ?w =
      (Continue, print M_err_too_short (?w\<lparr>stdin := [''quit'']\<rparr>))"
    by (simp only: a if_False)
  from t have 2: "analyze_calls (snd (iteration model0 ?w)) = analyze_calls ?w"
    by blast
  from 1 2 show ?thesis
    unfolding b c by (simp only: simp_thms)
qed

text \<open>
  C8. The report reads the two counts and prints them; it changes neither table, nor the
  scripted store outcomes, and it calls nothing else. Two reports in a row print the same
  two counts.
\<close>

theorem report_idempotent:
  assumes "stdin w = l1 # l2 # ls"
    and "lower (strip l1) = ''report''" and "lower (strip l2) = ''report''"
  shows "\<exists>w1 w2. iteration m w = (Continue, w1) \<and> iteration m w1 = (Continue, w2) \<and>
     events w1 = events w @
       [Out M_summary_header, Out (M_total_detections (count_detections w)),
        Out (M_false_positives (count_false_positives w))] \<and>
     events w2 = events w1 @
       [Out M_summary_header, Out (M_total_detections (count_detections w)),
        Out (M_false_positives (count_false_positives w))] \<and>
     detections w2 = detections w \<and> false_positives w2 = false_positives w \<and>
     write_faults w2 = write_faults w \<and> analyze_calls w2 = analyze_calls w \<and>
     stdin w2 = ls"
proof -
  let ?w1 = "report (w\<lparr>stdin := l2 # ls\<rparr>)"
  let ?w2 = "report (?w1\<lparr>stdin := ls\<rparr>)"
  have 1: "iteration m w = (Continue, ?w1)"
    using assms(1,2) by (simp add: iteration_line)
  have "stdin ?w1 = l2 # ls" by (simp add: report_fields)
  then have 2: "iteration m ?w1 = (Continue, ?w2)"
    using assms(3) by (simp add: iteration_line)
  have c: "count_detections (?w1\<lparr>stdin := ls\<rparr>) = count_detections w"
    "count_false_positives (?w1\<lparr>stdin := ls\<rparr>) = count_false_positives w"
    by (simp_all add: count_detections_def count_false_positives_def report_fields)
  show ?thesis
    using 1 2 c
    by (simp add: report_fields analyze_calls_stdin count_detections_def
        count_false_positives_def)
qed

theorem report_idempotent_witness:
  "iteration model0
     (snd (iteration model0
        (world0\<lparr>stdin := [''Report'', '' REPORT ''],
                 detections := [(''an older message'', ''legitimate'', 80)]\<rparr>))) =
   (Continue,
    world0\<lparr>detections := [(''an older message'', ''legitimate'', 80)],
            events := [Out M_summary_header, Out (M_total_detections 1), Out (M_false_positives 0),
                       Out M_summary_header, Out (M_total_detections 1), Out (M_false_positives 0)]\<rparr>)"
proof -
  let ?w = "world0\<lparr>stdin := [''Report'', '' REPORT ''],
                 detections := [(''an older message'', ''legitimate'', 80)]\<rparr>"
  have h: "stdin ?w = ''Report'' # '' REPORT '' # []"
    "lower (strip ''Report'') = ''report''" "lower (strip '' REPORT '') = ''report''"
    by (simp, code_simp, code_simp)
  have c: "count_detections ?w = 1" "count_false_positives ?w = 0" "events ?w = []"
    "write_faults ?w = []" "false_positives ?w = []"
    "detections ?w = [(''an older message'', ''legitimate'', 80)]"
    by (simp_all add: count_detections_def count_false_positives_def world0_def)
  from report_idempotent [OF h, of model0] obtain w1 w2 where
    i: "iteration model0 ?w = (Continue, w1)" "iteration model0 w1 = (Continue, w2)"
    and e: "events w2 = events w1 @ [Out M_summary_header, Out (M_total_detections 1),
        Out (M_false_positives 0)]"
      "events w1 = [Out M_summary_header, Out (M_total_detections 1), Out (M_false_positives 0)]"
    and f: "detections w2 = [(''an older message'', ''legitimate'', 80)]"
      "false_positives w2 = []" "write_faults w2 = []" "stdin w2 = []"
    unfolding c by auto
  from e f have "w2 = world0\<lparr>detections := [(''an older message'', ''legitimate'', 80)],
            events := [Out M_summary_header, Out (M_total_detections 1), Out (M_false_positives 0),
                       Out M_summary_header, Out (M_total_detections 1), Out (M_false_positives 0)]\<rparr>"
    by (cases w2) (simp add: world0_def)
  with i show ?thesis by simp
qed

subsection \<open>Feedback\<close>

lemma save_feedback_summary:
  assumes "save_feedback w email l = (r, w')"
  shows "stdin w' = stdin w \<and> detections w' = detections w \<and>
      (false_positives w' = false_positives w \<or>
       false_positives w' = false_positives w @ [(email, l)]) \<and>
      (events w' = events w \<or> (\<exists>x. events w' = events w @ [Out x]))"
proof (cases w rule: write_faults_cases)
  case nil
  with assms show ?thesis
    by (simp add: save_feedback_def store_defs) (auto simp: print_fields)
next
  case (one a)
  with assms show ?thesis
    by (cases a) (auto simp: save_feedback_def store_defs print_fields)
next
  case (more a b rest)
  with assms show ?thesis
    by (cases a; cases b) (auto simp: save_feedback_def store_defs print_fields)
qed

lemma save_feedback_written:
  assumes "save_feedback w email l = (r, w')" and "write_succeeds w"
  shows "r = Inr () \<and> false_positives w' = false_positives w @ [(email, l)] \<and>
      events w' = events w @ [Out M_feedback_saved]"
proof (cases w rule: write_faults_cases)
  case nil
  with assms show ?thesis
    by (simp add: save_feedback_def store_defs) (auto simp: print_fields)
next
  case (one a)
  with assms show ?thesis
    by (auto simp: save_feedback_def store_defs print_fields write_succeeds_def outcome_at_def)
next
  case (more a b rest)
  with assms show ?thesis
    by (auto simp: save_feedback_def store_defs print_fields write_succeeds_def outcome_at_def)
qed

lemma ask_feedback_cases:
  "ask_feedback w email =
     (case stdin w of
        [] \<Rightarrow> (Inl EOFError, w)
      | a # rest \<Rightarrow>
          if lower a = ''n'' then
            (case rest of
               [] \<Rightarrow> (Inl EOFError, w\<lparr>stdin := []\<rparr>)
             | b # ls \<Rightarrow>
                 if lower (strip b) \<in> set labels
                 then save_feedback (w\<lparr>stdin := ls\<rparr>) email (lower (strip b))
                 else (Inr (), print M_invalid_label (w\<lparr>stdin := ls\<rparr>)))
          else (Inr (), w\<lparr>stdin := rest\<rparr>))"
  by (simp add: ask_feedback_def input_line_def Let_def split: list.splits)

text \<open>
  C6, as the script has it. After a prediction the loop asks whether it was right. A row
  goes into \<open>false_positives\<close> only when the answer is \<open>n\<close> (in either case of the letter)
  and the next answer, stripped and in lower case, is \<open>phishing\<close> or \<open>legitimate\<close>. When
  the INSERT and its commit succeed this is exactly when the count grows by one, and the
  new row holds the text and that label. With any other label the invalid-label message
  is printed and nothing is written; with any other first answer nothing is written
  either.
\<close>

theorem feedback_recorded_iff:
  assumes "ask_feedback w email = (r, w')"
  shows "(write_succeeds w \<longrightarrow>
            (count_false_positives w' = count_false_positives w + 1) =
            (\<exists>l \<in> set labels. negative_with_label w l)) \<and>
         (\<forall>l. write_succeeds w \<and> l \<in> set labels \<and> negative_with_label w l \<longrightarrow>
            r = Inr () \<and> false_positives w' = false_positives w @ [(email, l)] \<and>
            events w' = events w @ [Out M_feedback_saved]) \<and>
         (\<forall>l. l \<notin> set labels \<and> negative_with_label w l \<longrightarrow>
            r = Inr () \<and> false_positives w' = false_positives w \<and>
            events w' = events w @ [Out M_invalid_label]) \<and>
         ((\<forall>l \<in> set labels. \<not> negative_with_label w l) \<longrightarrow>
            false_positives w' = false_positives w) \<and>
         detections w' = detections w"
proof (cases "stdin w")
  case Nil
  with assms show ?thesis
    by (auto simp: ask_feedback_cases negative_with_label_def)
next
  case a: (Cons a rest)
  show ?thesis
  proof (cases rest)
    case Nil
    with a assms show ?thesis
      by (auto simp: ask_feedback_cases negative_with_label_def count_false_positives_def
          split: if_splits)
  next
    case (Cons b ls)
    show ?thesis
    proof (cases "lower a = ''n'' \<and> lower (strip b) \<in> set labels")
      case False
      with a Cons assms show ?thesis
        by (auto simp: ask_feedback_cases negative_with_label_def count_false_positives_def
            print_fields split: if_splits)
    next
      case True
      let ?w = "w\<lparr>stdin := ls\<rparr>"
      let ?l = "lower (strip b)"
      from True a Cons assms have sf: "save_feedback ?w email ?l = (r, w')"
        by (simp add: ask_feedback_cases)
      have neg: "negative_with_label w l = (l = ?l)" for l
        using True a Cons by (auto simp: negative_with_label_def)
      from save_feedback_summary [OF sf] have det: "detections w' = detections w"
        by simp
      have ok: "r = Inr () \<and> false_positives w' = false_positives w @ [(email, ?l)] \<and>
          events w' = events w @ [Out M_feedback_saved]" if "write_succeeds w"
      proof -
        from that have "write_succeeds ?w" by (simp add: write_succeeds_stdin)
        from save_feedback_written [OF sf this] show ?thesis by simp
      qed
      from True have lab: "?l \<in> set labels" by simp
      show ?thesis
      proof (intro conjI impI allI)
        show "(count_false_positives w' = count_false_positives w + 1) =
            (\<exists>l \<in> set labels. negative_with_label w l)" if "write_succeeds w"
          using ok [OF that] lab by (auto simp: neg count_false_positives_def)
        show "r = Inr ()"
          if "write_succeeds w \<and> l \<in> set labels \<and> negative_with_label w l" for l
          using ok that by blast
        show "false_positives w' = false_positives w @ [(email, l)]"
          if "write_succeeds w \<and> l \<in> set labels \<and> negative_with_label w l" for l
          using ok that by (simp add: neg)
        show "events w' = events w @ [Out M_feedback_saved]"
          if "write_succeeds w \<and> l \<in> set labels \<and> negative_with_label w l" for l
          using ok that by blast
        show "r = Inr ()" if "l \<notin> set labels \<and> negative_with_label w l" for l
          using that lab by (auto simp: neg)
        show "false_positives w' = false_positives w"
          if "l \<notin> set labels \<and> negative_with_label w l" for l
          using that lab by (auto simp: neg)
        show "events w' = events w @ [Out M_invalid_label]"
          if "l \<notin> set labels \<and> negative_with_label w l" for l
          using that lab by (auto simp: neg)
        show "false_positives w' = false_positives w"
          if "\<forall>l \<in> set labels. \<not> negative_with_label w l"
          using that lab by (auto simp: neg)
        show "detections w' = detections w" by (rule det)
      qed
    qed
  qed
qed

theorem feedback_recorded_iff_witness:
  "ask_feedback (world0\<lparr>stdin := [''N'', '' Legitimate '']\<rparr>) ''verify your account now'' =
     (Inr (), world0\<lparr>false_positives := [(''verify your account now'', ''legitimate'')],
                     events := [Out M_feedback_saved]\<rparr>) \<and>
   count_false_positives
     (snd (ask_feedback (world0\<lparr>stdin := [''N'', '' Legitimate '']\<rparr>) ''verify your account now'')) =
   count_false_positives (world0\<lparr>stdin := [''N'', '' Legitimate '']\<rparr>) + 1"
proof -
  let ?w = "world0\<lparr>stdin := [''N'', '' Legitimate '']\<rparr>"
  let ?t = "''verify your account now''"
  obtain r w' where a: "ask_feedback ?w ?t = (r, w')" by (cases "ask_feedback ?w ?t")
  have h: "write_succeeds ?w \<and> ''legitimate'' \<in> set labels \<and>
      negative_with_label ?w ''legitimate''"
    by code_simp
  note t = feedback_recorded_iff [OF a]
  from t [THEN conjunct2, THEN conjunct1, THEN spec, of "''legitimate''"] h
  have f: "r = Inr () \<and> false_positives w' = false_positives ?w @ [(?t, ''legitimate'')] \<and>
      events w' = events ?w @ [Out M_feedback_saved]"
    by (rule mp)
  then have "length (false_positives w') = length (false_positives ?w) + 1" by simp
  with a have c: "count_false_positives (snd (ask_feedback ?w ?t)) =
      count_false_positives ?w + 1"
    by (simp add: count_false_positives_def)
  have e: "ask_feedback ?w ?t =
     (Inr (), world0\<lparr>false_positives := [(?t, ''legitimate'')],
                     events := [Out M_feedback_saved]\<rparr>)"
    by code_simp
  from e c show ?thesis by (rule conjI)
qed

text \<open>
  The run on which the claim C6 fails: the answers are \<open>n\<close> and \<open>phishing\<close>, a valid
  correction, the INSERT raises a \<open>sqlite3.Error\<close>, and no row is added.
\<close>

theorem feedback_not_recorded:
  "negative_with_label (world0\<lparr>stdin := [''n'', ''phishing''], write_faults := [Some Sqlite_Error]\<rparr>)
     ''phishing'' \<and>
   ''phishing'' \<in> set labels \<and>
   ask_feedback (world0\<lparr>stdin := [''n'', ''phishing''], write_faults := [Some Sqlite_Error]\<rparr>)
     ''verify your account now'' = (Inl Sqlite_Error, world0) \<and>
   count_false_positives world0 =
   count_false_positives
     (world0\<lparr>stdin := [''n'', ''phishing''], write_faults := [Some Sqlite_Error]\<rparr>)"
  by code_simp

subsection \<open>The detections log\<close>

lemma strip_strip: "strip (strip s) = strip s"
proof -
  define a where "a = dropWhile is_space s"
  define b where "b = rev (dropWhile is_space (rev a))"
  have ba: "a = b @ rev (takeWhile is_space (rev a))"
  proof -
    have "rev a = takeWhile is_space (rev a) @ dropWhile is_space (rev a)" by simp
    then have "rev (rev a) = rev (takeWhile is_space (rev a) @ dropWhile is_space (rev a))"
      by (rule arg_cong)
    then show ?thesis by (simp only: rev_rev_ident rev_append b_def)
  qed
  have front: "dropWhile is_space b = b"
  proof (cases "b = []")
    case True
    then show ?thesis by simp
  next
    case False
    with ba have "hd b = hd a" by (metis hd_append2)
    moreover from False ba have "a \<noteq> []" by auto
    then have "\<not> is_space (hd a)" unfolding a_def by (rule hd_dropWhile)
    ultimately show ?thesis by (simp add: dropWhile_eq_self_iff)
  qed
  have rear: "dropWhile is_space (rev b) = rev b"
    by (simp add: b_def)
  have "strip b = b"
    unfolding strip_def [of b] front rear by simp
  moreover have "strip s = b" by (simp add: strip_def a_def b_def)
  ultimately show ?thesis by simp
qed

lemma ask_feedback_detections:
  "ask_feedback w email = (r, w') \<Longrightarrow> detections w' = detections w"
  by (auto simp: ask_feedback_cases print_fields split: list.splits if_splits
      dest!: save_feedback_summary)

lemma try_block_detections:
  assumes "try_block m w t = (r, w')"
  shows "detections w' = detections w \<or>
         (\<exists>c. detections w' = detections w @ [(t, predict m (transform m t), c)] \<and>
              length t \<le> 1000)"
proof -
  let ?w = "log (Ev_analyze t) w"
  obtain x w1 where a: "analyze_email m ?w t = (x, w1)"
    by (cases "analyze_email m ?w t")
  then have w1: "w1 = ?w" using analyze_email_world [of m ?w t] by simp
  show ?thesis
  proof (cases x)
    case (Inl e)
    with a assms have "w' = w1" by (simp add: try_block_def)
    with w1 show ?thesis by (simp add: log_fields)
  next
    case (Inr pc)
    obtain p c where pc: "pc = (p, c)" by (cases pc)
    from a Inr pc have ok: "length t \<le> 1000" and p: "p = predict m (transform m t)"
      by (auto simp: analyze_email_cases split: if_splits list.splits)
    obtain y w2 where s: "save_to_db (print (M_result p c) w1) t p c = (y, w2)"
      by (cases "save_to_db (print (M_result p c) w1) t p c")
    from save_to_db_summary [OF s]
    have d2: "detections w2 = detections w \<or> detections w2 = detections w @ [(t, p, c)]"
      by (simp add: print_fields log_fields w1)
    have "detections w' = detections w2"
    proof (cases y)
      case (Inl e)
      with a \<open>x = Inr pc\<close> pc s assms have "w' = w2" by (simp add: try_block_def)
      then show ?thesis by simp
    next
      case (Inr u)
      with a \<open>x = Inr pc\<close> pc s assms have "ask_feedback w2 t = (r, w')"
        by (simp add: try_block_def)
      then show ?thesis by (rule ask_feedback_detections)
    qed
    with d2 ok p show ?thesis by auto
  qed
qed

lemma iteration_detections:
  assumes "iteration m w = (c, w')" and "\<forall>v. predict m v \<in> set labels"
  shows "\<exists>new. detections w' = detections w @ new \<and> list_all well_formed_row new"
proof (cases "stdin w")
  case Nil
  with assms(1) have "w' = w" by (simp add: iteration_def input_line_def)
  then show ?thesis by simp
next
  case (Cons l ls)
  let ?w1 = "w\<lparr>stdin := ls\<rparr>"
  note it = iteration_line [OF Cons, of m]
  show ?thesis
  proof (cases "lower (strip l) = ''quit'' \<or> lower (strip l) = ''report'' \<or> strip l = [] \<or>
      length (strip l) < 10")
    case True
    with assms(1) it have "detections w' = detections w"
      by (auto simp: report_fields print_fields split: if_splits)
    then show ?thesis by simp
  next
    case False
    obtain r w2 where tb: "try_block m ?w1 (strip l) = (r, w2)"
      by (cases "try_block m ?w1 (strip l)")
    with False assms(1) it have "detections w' = detections w2"
      by (cases r) (auto simp: print_fields)
    moreover from try_block_detections [OF tb]
    have "detections w2 = detections w \<or>
         (\<exists>c. detections w2 = detections w @ [(strip l, predict m (transform m (strip l)), c)] \<and>
              length (strip l) \<le> 1000)"
      by simp
    moreover have "well_formed_row (strip l, predict m (transform m (strip l)), c)"
      if "length (strip l) \<le> 1000" for c
      using that False assms(2) by (simp add: well_formed_row_def strip_strip)
    ultimately show ?thesis by auto
  qed
qed

text \<open>
  C10. Every row the loop adds to \<open>detections\<close> holds a text that is its own \<open>strip\<close>, of
  at least 10 and at most 1000 characters, and a label that is \<open>phishing\<close> or
  \<open>legitimate\<close>, given that the forest predicts one of the labels it was trained on. The
  rows that were in the table before the session are left as they were.
\<close>

theorem detections_well_formed:
  assumes "\<forall>v. predict m v \<in> set labels" and "loop m w = (r, w')"
  shows "\<exists>new. detections w' = detections w @ new \<and> list_all well_formed_row new"
  using assms
proof (induction m w arbitrary: r w' rule: loop.induct)
  case (1 m w)
  note lab = "1.prems"(1) and run = "1.prems"(2)
  obtain c w1 where it: "iteration m w = (c, w1)" by (cases "iteration m w")
  from iteration_detections [OF it lab] obtain new1 where
    n1: "detections w1 = detections w @ new1" "list_all well_formed_row new1" by blast
  show ?case
  proof (cases c)
    case Continue
    with it run have "loop m w1 = (r, w')" by (simp add: loop.simps [of m w])
    from "1.IH" [OF it [symmetric] Continue lab this] obtain new2 where
      "detections w' = detections w1 @ new2" "list_all well_formed_row new2" by blast
    with n1 have "detections w' = detections w @ (new1 @ new2) \<and>
        list_all well_formed_row (new1 @ new2)" by simp
    then show ?thesis by blast
  next
    case Break
    with it run have "w' = w1" by (simp add: loop.simps [of m w])
    with n1 show ?thesis by blast
  next
    case (Raise e)
    with it run have "w' = w1" by (simp add: loop.simps [of m w])
    with n1 show ?thesis by blast
  qed
qed

theorem detections_well_formed_witness:
  "detections (snd (loop model0
      (world0\<lparr>stdin := [''   click here to verify   '', ''y'', ''quit'']\<rparr>))) =
     [(''click here to verify'', ''phishing'', 75)] \<and>
   list_all well_formed_row (detections (snd (loop model0
      (world0\<lparr>stdin := [''   click here to verify   '', ''y'', ''quit'']\<rparr>))))"
proof -
  let ?w = "world0\<lparr>stdin := [''   click here to verify   '', ''y'', ''quit'']\<rparr>"
  have h: "\<forall>v. predict model0 v \<in> set labels"
    by (simp add: model0_def labels_def)
  obtain r w' where l: "loop model0 ?w = (r, w')" by (cases "loop model0 ?w")
  from detections_well_formed [OF h l] obtain new where
    n: "detections w' = detections ?w @ new" "list_all well_formed_row new" by blast
  have "detections ?w = []" by (simp add: world0_def)
  with n have wf: "list_all well_formed_row (detections w')" by simp
  have "detections (snd (loop model0 ?w)) =
      [(''click here to verify'', ''phishing'', 75)]"
    by code_simp
  with wf l show ?thesis by simp
qed

subsection \<open>The connection\<close>


















subsection \<open>Validation of the dataset\<close>

lemma column_present:
  "name \<in> set (columns data) \<Longrightarrow> \<exists>vs. column data name = Inr vs"
  by (cases "map_of data name") (auto simp: column_def columns_def map_of_eq_None_iff)

lemma set_unique: "set (unique vs) = set vs"
  by (simp add: unique_def)

lemma validate_invalid:
  assumes "invalid_dataset data"
  shows "validate data = Inl (ValueError ''CSV must contain text and label columns'') \<or>
         validate data = Inl (ValueError ''Labels must be phishing or legitimate'')"
proof (cases "''text'' \<in> set (columns data) \<and> ''label'' \<in> set (columns data)")
  case False
  then show ?thesis by (auto simp: validate_def)
next
  case True
  then obtain ls where ls: "column data ''label'' = Inr ls"
    using column_present by blast
  with assms True have "list_ex (\<lambda>v. v \<notin> set (map Str labels)) ls"
    by (simp add: invalid_dataset_def)
  then have "\<not> list_all (\<lambda>label. label \<in> set (map Str labels)) (unique ls)"
    by (simp add: list_all_iff list_ex_iff set_unique)
  with True ls show ?thesis by (simp add: validate_def)
qed

text \<open>
  C4. When the loaded table lacks the column \<open>text\<close> or the column \<open>label\<close>, or its label
  column holds a value other than \<open>phishing\<close> and \<open>legitimate\<close>, the validation raises a
  ValueError (the DataValidationError of the specification); the script prints it and
  exits. The run then consists of the banner, the message that the data was loaded and
  the error: no split, no fit, no connection, no model, and the store is untouched.
\<close>

theorem invalid_dataset_aborts:
  assumes "invalid_dataset data"
  shows "\<exists>msg. validate data = Inl (ValueError msg) \<and>
           main sk (Inr data) w0 =
             (Exited, w0\<lparr>events := events w0 @
                [Out M_banner, Out M_data_loaded, Out (M_error_loading (ValueError msg))]\<rparr>)"
proof -
  from validate_invalid [OF assms] obtain msg where v: "validate data = Inl (ValueError msg)"
    by blast
  have "load_data (Inr data) (print M_banner w0) =
      (None, print (M_error_loading (ValueError msg)) (print M_data_loaded (print M_banner w0)))"
    by (simp add: load_data_def v Let_def)
  then have "main sk (Inr data) w0 =
      (Exited, print (M_error_loading (ValueError msg)) (print M_data_loaded (print M_banner w0)))"
    by (simp add: main_def)
  moreover have "print (M_error_loading (ValueError msg)) (print M_data_loaded (print M_banner w0)) =
      w0\<lparr>events := events w0 @
                [Out M_banner, Out M_data_loaded, Out (M_error_loading (ValueError msg))]\<rparr>"
    by (simp add: print_def log_def)
  ultimately show ?thesis using v by simp
qed

theorem invalid_dataset_aborts_witness:
  "main sk0 (Inr [(''text'', [Str ''hello there friend''])]) world0 =
     (Exited, world0\<lparr>events :=
        [Out M_banner, Out M_data_loaded,
         Out (M_error_loading (ValueError ''CSV must contain text and label columns''))]\<rparr>)"
proof -
  let ?d = "[(''text'', [Str ''hello there friend''])]"
  have h: "invalid_dataset ?d" by code_simp
  have v: "validate ?d = Inl (ValueError ''CSV must contain text and label columns'')"
    by code_simp
  have e: "events world0 = []" by (simp add: world0_def)
  from invalid_dataset_aborts [OF h, of sk0 world0] show ?thesis
    unfolding v e by auto
qed

end
